theory Spec2Isabelle
  imports Main "HOL-Library.Multiset" "HOL-Library.AList"
begin

section \<open>The sortable table helper (sorting.js)\<close>

text \<open>
  The JavaScript objects the sorting code touches are kept in an explicit store, because
  the code copies an array, sorts the copy in place and publishes the copy, and several
  properties are about which objects are written.

  \<^item> A reference is an address. Array objects live in \<open>arrays\<close>: the array at address
    \<open>a\<close> is \<open>arrays st ! a\<close>, and a new array is allocated at address
    \<open>length (arrays st)\<close>. The elements of an array are references to record objects.
  \<^item> Record objects live in \<open>rows\<close>: \<open>rows st r field\<close> is the value of
    \<open>r[field]\<close>, with \<open>None\<close> for \<open>undefined\<close> (the record has no such
    attribute).
  \<^item> Attribute values are drawn from one linearly ordered type \<open>'v\<close>: the numbers
    (without NaN) or the strings of a homogeneous column, with the native order.
  \<^item> \<open>parent\<close> is the property table of the owning component, restricted to the
    properties that hold arrays.
\<close>

type_synonym ref = nat

datatype error = TypeError

record 'v store =
  arrays :: "ref list list"
  rows :: "ref \<Rightarrow> string \<rightharpoonup> 'v"

record 'v world = "'v store" +
  parent :: "string \<rightharpoonup> ref"

text \<open>
  The three properties both classes expose to the template, the reusable class
  \<open>DatatableSorter\<close> (which also holds the name of the owner's slot; its \<open>parent\<close>
  is the owner of the \<open>world\<close>) and the demo component \<open>DemoApp\<close> (which is its own
  owner and holds the array in \<open>this.data\<close>). \<open>sortedBy\<close> is \<open>None\<close> for
  \<open>null\<close> and for an unset property.
\<close>

record sort_state =
  defaultSortDirection :: string
  sortDirection :: string
  sortedBy :: "string option"

record DatatableSorter = sort_state +
  dataFieldName :: string

record DemoApp = sort_state +
  data :: ref

text \<open>The payload \<open>event.detail\<close> of the sort event.\<close>

record detail =
  fieldName :: string
  detail_sortDirection :: string

text \<open>
  \<open>a > b\<close> on two attribute values. A comparison with \<open>undefined\<close> converts it to
  NaN and is false.
\<close>

definition js_gt :: "'v::linorder option \<Rightarrow> 'v option \<Rightarrow> bool" where
  "js_gt a b =
     (case a of
        None \<Rightarrow> False
      | Some x \<Rightarrow> (case b of None \<Rightarrow> False | Some y \<Rightarrow> y < x))"

text \<open>
  \<open>Array.prototype.sort(cmp)\<close>: a stable sort (ECMAScript 2019), here by insertion.
  An element moves behind another one only when the comparator, called on the two,
  returns a positive number.
\<close>

fun insert_by :: "('a \<Rightarrow> 'a \<Rightarrow> int) \<Rightarrow> 'a \<Rightarrow> 'a list \<Rightarrow> 'a list" where
  "insert_by cmp x [] = [x]"
| "insert_by cmp x (y # ys) = (if 0 < cmp x y then y # insert_by cmp x ys else x # y # ys)"

definition array_sort :: "('a \<Rightarrow> 'a \<Rightarrow> int) \<Rightarrow> 'a list \<Rightarrow> 'a list" where
  "array_sort cmp xs = foldr (insert_by cmp) xs []"

text \<open>
  \<open>[...x]\<close>: a new array with the elements of the array at \<open>a\<close>. Spreading a value
  that is not an array (here: an address that holds none) throws a TypeError.
\<close>

definition spread :: "ref \<Rightarrow> ('v, 'z) store_scheme \<Rightarrow> error + (ref \<times> ('v, 'z) store_scheme)" where
  "spread a st =
     (if a < length (arrays st)
      then Inr (length (arrays st), st\<lparr>arrays := arrays st @ [arrays st ! a]\<rparr>)
      else Inl TypeError)"

text \<open>\<open>c.sort(cmp)\<close> sorts the array at address \<open>c\<close> in place.\<close>

definition sort_in_place ::
  "(ref \<Rightarrow> ref \<Rightarrow> int) \<Rightarrow> ref \<Rightarrow> ('v, 'z) store_scheme \<Rightarrow> ('v, 'z) store_scheme" where
  "sort_in_place cmp c st = st\<lparr>arrays := (arrays st)[c := array_sort cmp (arrays st ! c)]\<rparr>"

subsection \<open>DatatableSorter\<close>

text \<open>
  The field initialisers and the constructor. The constructor's call of \<open>protectThis\<close>
  rebinds the methods of the instance and leaves these properties alone; it is modelled
  in the next section.
\<close>

definition DatatableSorter_new :: "string \<Rightarrow> DatatableSorter" where
  "DatatableSorter_new name =
     \<lparr>defaultSortDirection = ''asc'', sortDirection = ''asc'', sortedBy = None,
      dataFieldName = name\<rparr>"

text \<open>\<open>DatatableSorter.sortBy(field, reverse)\<close>: the comparator it returns, applied to
  two records \<open>a\<close> and \<open>b\<close>.\<close>

definition sortBy ::
  "string \<Rightarrow> int \<Rightarrow> (ref \<Rightarrow> string \<rightharpoonup> 'v::linorder) \<Rightarrow> ref \<Rightarrow> ref \<Rightarrow> int" where
  "sortBy field reverse rws a b =
     (let a' = rws a field; b' = rws b field
      in reverse * (of_bool (js_gt a' b') - of_bool (js_gt b' a')))"

text \<open>\<open>DatatableSorter.sortData(event)\<close>.\<close>

definition sortData ::
  "detail \<Rightarrow> DatatableSorter \<Rightarrow> 'v::linorder world \<Rightarrow> error + (DatatableSorter \<times> 'v world)" where
  "sortData ev self w =
     (case parent w (dataFieldName self) of
        None \<Rightarrow> Inl TypeError
      | Some a \<Rightarrow>
          (case spread a w of
             Inl e \<Rightarrow> Inl e
           | Inr (cloneData, w1) \<Rightarrow>
               let w2 = sort_in_place
                          (sortBy (fieldName ev)
                             (if detail_sortDirection ev = ''asc'' then - 1 else 1) (rows w1))
                          cloneData w1;
                   w3 = w2\<lparr>parent := (parent w2)(dataFieldName self \<mapsto> cloneData)\<rparr>
               in Inr (self\<lparr>sortDirection := detail_sortDirection ev,
                            sortedBy := Some (fieldName ev)\<rparr>, w3)))"

text \<open>The sequence the owner's slot holds: \<open>parent[dataFieldName]\<close>, when it is an array.\<close>

definition published :: "DatatableSorter \<Rightarrow> 'v world \<Rightarrow> ref list option" where
  "published self w =
     (case parent w (dataFieldName self) of
        None \<Rightarrow> None
      | Some a \<Rightarrow> if a < length (arrays w) then Some (arrays w ! a) else None)"

subsection \<open>DemoApp\<close>

definition DemoApp_new :: "ref \<Rightarrow> DemoApp" where
  "DemoApp_new d =
     \<lparr>defaultSortDirection = ''asc'', sortDirection = ''asc'', sortedBy = None, data = d\<rparr>"

text \<open>\<open>DemoApp.sortBy(field, reverse, primer)\<close>; \<open>primer\<close> is \<open>None\<close> when the
  caller passes none.\<close>

definition DemoApp_sortBy ::
  "string \<Rightarrow> int \<Rightarrow> ('v option \<Rightarrow> 'v option) option \<Rightarrow> (ref \<Rightarrow> string \<rightharpoonup> 'v::linorder) \<Rightarrow>
   ref \<Rightarrow> ref \<Rightarrow> int" where
  "DemoApp_sortBy field reverse primer rws a b =
     (let key = (case primer of
                   Some p \<Rightarrow> (\<lambda>x. p (rws x field))
                 | None \<Rightarrow> (\<lambda>x. rws x field));
          a' = key a; b' = key b
      in reverse * (of_bool (js_gt a' b') - of_bool (js_gt b' a')))"

text \<open>\<open>DemoApp.onHandleSort(event)\<close>.\<close>

definition onHandleSort ::
  "detail \<Rightarrow> DemoApp \<Rightarrow> ('v::linorder, 'z) store_scheme \<Rightarrow>
   error + (DemoApp \<times> ('v, 'z) store_scheme)" where
  "onHandleSort ev self st =
     (case spread (data self) st of
        Inl e \<Rightarrow> Inl e
      | Inr (cloneData, st1) \<Rightarrow>
          let st2 = sort_in_place
                      (DemoApp_sortBy (fieldName ev)
                         (if detail_sortDirection ev = ''asc'' then 1 else - 1) None (rows st1))
                      cloneData st1
          in Inr (self\<lparr>data := cloneData, sortDirection := detail_sortDirection ev,
                       sortedBy := Some (fieldName ev)\<rparr>, st2))"

text \<open>The sequence the demo component holds in \<open>this.data\<close>.\<close>

definition DemoApp_published :: "DemoApp \<Rightarrow> ('v, 'z) store_scheme \<Rightarrow> ref list option" where
  "DemoApp_published self st =
     (if data self < length (arrays st) then Some (arrays st ! data self) else None)"


subsection \<open>Example data\<close>

text \<open>The four records of the demo (their numeric attributes), at addresses 1 to 4, in
  an array at address 0 that the owner holds in its slot \<open>data\<close>.\<close>

definition demo_rows :: "ref \<Rightarrow> string \<rightharpoonup> int" where
  "demo_rows =
     (\<lambda>_. Map.empty)
       (1 := [''id'' \<mapsto> 1, ''age'' \<mapsto> 40],
        2 := [''id'' \<mapsto> 2, ''age'' \<mapsto> 35],
        3 := [''id'' \<mapsto> 3, ''age'' \<mapsto> 50],
        4 := [''id'' \<mapsto> 4, ''age'' \<mapsto> 37])"

definition demo_world :: "int world" where
  "demo_world = \<lparr>arrays = [[1, 2, 3, 4]], rows = demo_rows, parent = [''data'' \<mapsto> 0]\<rparr>"

text \<open>Three records with the ages 40, 35 and 50.\<close>

definition ages_rows :: "ref \<Rightarrow> string \<rightharpoonup> int" where
  "ages_rows =
     (\<lambda>_. Map.empty)
       (1 := [''age'' \<mapsto> 40], 2 := [''age'' \<mapsto> 35], 3 := [''age'' \<mapsto> 50])"

definition ages_world :: "int world" where
  "ages_world = \<lparr>arrays = [[1, 2, 3]], rows = ages_rows, parent = [''data'' \<mapsto> 0]\<rparr>"



definition asc_age :: detail where
  "asc_age = \<lparr>fieldName = ''age'', detail_sortDirection = ''asc''\<rparr>"

definition desc_age :: detail where
  "desc_age = \<lparr>fieldName = ''age'', detail_sortDirection = ''desc''\<rparr>"

section \<open>Method binding (protectThis.js)\<close>

text \<open>
  Objects with prototypes. A property value is \<open>undefined\<close>, \<open>null\<close>, a value that
  is not a function (\<open>Prim\<close>), or a function. A function is either one that some class
  or library defines, named by its code (\<open>Defined\<close>), or the closure that
  \<open>protectThis\<close> creates, which captures \<open>initialFunctionDefinition\<close> and
  \<open>object\<close> (\<open>Protected\<close>).

  An object is its table of own properties, in creation order, and its prototype
  (\<open>None\<close> for \<open>null\<close>). All properties are writable data properties. The heap
  gives the object at every address.
\<close>

datatype 'v jsval = Undefined | Null | Prim 'v | Defined string | Protected "'v jsval" ref

record 'v object =
  props :: "(string \<times> 'v jsval) list"
  proto :: "ref option"

type_synonym 'v heap = "ref \<Rightarrow> 'v object"

text \<open>
  \<open>object[name]\<close>: the own property, else the prototype's. JavaScript keeps prototype
  chains acyclic; addresses are numbered so that a prototype has a smaller address than
  the objects that inherit from it, and the walk follows descending links only.
\<close>

function get :: "'v heap \<Rightarrow> ref \<Rightarrow> string \<Rightarrow> 'v jsval" where
  "get h a n =
     (case map_of (props (h a)) n of
        Some v \<Rightarrow> v
      | None \<Rightarrow> (case proto (h a) of
                   None \<Rightarrow> Undefined
                 | Some p \<Rightarrow> if p < a then get h p n else Undefined))"
  by pat_completeness auto
termination
  by (relation "measure (\<lambda>(h, a, n). a)") auto

declare get.simps [simp del]

text \<open>\<open>object[name] = v\<close>: overwrites the own property or creates it, last in the table.\<close>

definition set_prop :: "ref \<Rightarrow> string \<Rightarrow> 'v jsval \<Rightarrow> 'v heap \<Rightarrow> 'v heap" where
  "set_prop a n v h = h(a := (h a)\<lparr>props := AList.update n v (props (h a))\<rparr>)"

text \<open>\<open>typeof v === 'function'\<close>.\<close>

fun typeof_function :: "'v jsval \<Rightarrow> bool" where
  "typeof_function (Defined c) = True"
| "typeof_function (Protected f object) = True"
| "typeof_function _ = False"

text \<open>
  Calling a value with a \<open>this\<close> (\<open>None\<close> when the call has no context), arguments
  and a state. \<open>B\<close> gives the behaviour of every defined function. The closure of
  \<open>protectThis\<close> ignores its own \<open>this\<close> and applies the captured function to the
  captured object; calling what is not a function throws a TypeError.
\<close>

fun call ::
  "(string \<Rightarrow> ref option \<Rightarrow> 'a \<Rightarrow> 's \<Rightarrow> 'r) \<Rightarrow> 'v jsval \<Rightarrow> ref option \<Rightarrow> 'a \<Rightarrow> 's \<Rightarrow> error + 'r" where
  "call B (Defined c) this_arg args st = Inr (B c this_arg args st)"
| "call B (Protected f object) this_arg args st = call B f (Some object) args st"
| "call B _ this_arg args st = Inl TypeError"

definition getOwnPropertyNames :: "'v object \<Rightarrow> string list" where
  "getOwnPropertyNames ob = map fst (props ob)"

text \<open>The callback of \<open>forEach\<close>: reads the function and overwrites it with the closure.\<close>

definition protect_method :: "ref \<Rightarrow> string \<Rightarrow> 'v heap \<Rightarrow> 'v heap" where
  "protect_method object functionName h =
     (let initialFunctionDefinition = get h object functionName
      in set_prop object functionName (Protected initialFunctionDefinition object) h)"

text \<open>
  \<open>protectThis(object)\<close>. \<open>Object.getOwnPropertyNames(null)\<close> throws a TypeError.
  The filter runs over all names before the first property is written.
\<close>

definition protectThis :: "ref \<Rightarrow> 'v heap \<Rightarrow> error + 'v heap" where
  "protectThis object h =
     (case proto (h object) of
        None \<Rightarrow> Inl TypeError
      | Some p \<Rightarrow>
          Inr (fold (protect_method object)
                    (filter (\<lambda>maybeFunctionName. typeof_function (get h object maybeFunctionName))
                            (getOwnPropertyNames (h p)))
                    h))"

subsection \<open>Example objects\<close>

text \<open>
  A \<open>DatatableSorter\<close> instance at address 2 as its constructor finds it (the fields
  initialised, \<open>protectThis\<close> not yet called), its class prototype at address 1 and
  \<open>Object.prototype\<close>, with its \<open>toString\<close>, at address 0.
\<close>

definition sorter_heap :: "string heap" where
  "sorter_heap =
     (\<lambda>_. \<lparr>props = [], proto = None\<rparr>)
       (0 := \<lparr>props = [(''toString'', Defined ''Object.prototype.toString'')], proto = None\<rparr>,
        1 := \<lparr>props = [(''constructor'', Defined ''DatatableSorter''),
                        (''sortBy'', Defined ''sortBy''),
                        (''sortData'', Defined ''sortData'')],
               proto = Some 0\<rparr>,
        2 := \<lparr>props = [(''defaultSortDirection'', Prim ''asc''),
                        (''sortDirection'', Prim ''asc''),
                        (''sortedBy'', Null),
                        (''parent'', Undefined),
                        (''dataFieldName'', Undefined)],
               proto = Some 1\<rparr>)"

text \<open>The instance after \<open>protectThis\<close>.\<close>

definition sorter_heap_protected :: "string heap" where
  "sorter_heap_protected =
     sorter_heap
       (2 := \<lparr>props = [(''defaultSortDirection'', Prim ''asc''),
                        (''sortDirection'', Prim ''asc''),
                        (''sortedBy'', Null),
                        (''parent'', Undefined),
                        (''dataFieldName'', Undefined),
                        (''constructor'', Protected (Defined ''DatatableSorter'') 2),
                        (''sortBy'', Protected (Defined ''sortBy'') 2),
                        (''sortData'', Protected (Defined ''sortData'') 2)],
               proto = Some 1\<rparr>)"

text \<open>An object at address 1 whose prototype, at address 0, has no function.\<close>

definition plain_heap :: "string heap" where
  "plain_heap =
     (\<lambda>_. \<lparr>props = [], proto = None\<rparr>)
       (0 := \<lparr>props = [(''label'', Prim ''Age'')], proto = None\<rparr>,
        1 := \<lparr>props = [], proto = Some 0\<rparr>)"

text \<open>Behaviours that report the function called, the \<open>this\<close> it ran with and its
  arguments.\<close>

definition observe :: "string \<Rightarrow> ref option \<Rightarrow> 'a \<Rightarrow> 's \<Rightarrow> string \<times> ref option \<times> 'a" where
  "observe c this_arg args st = (c, this_arg, args)"

section \<open>Properties of the sort\<close>

lemma mset_insert_by: "mset (insert_by cmp x ys) = add_mset x (mset ys)"
  by (induction ys) auto

lemma mset_array_sort: "mset (array_sort cmp xs) = mset xs"
  by (induction xs) (auto simp: array_sort_def mset_insert_by)


lemma length_array_sort: "length (array_sort cmp xs) = length xs"
  using mset_array_sort [of cmp xs] by (metis size_mset)

lemma published_SomeD:
  "published self w = Some xs \<Longrightarrow>
   \<exists>a. parent w (dataFieldName self) = Some a \<and> a < length (arrays w) \<and> xs = arrays w ! a"
  by (auto simp: published_def split: option.splits if_splits)

text \<open>The result of \<open>sortData\<close> when the owner's slot holds an array.\<close>

lemma sortData_Inr:
  assumes "parent w (dataFieldName self) = Some a" and "a < length (arrays w)"
  shows "sortData ev self w =
    Inr (self\<lparr>sortDirection := detail_sortDirection ev, sortedBy := Some (fieldName ev)\<rparr>,
         w\<lparr>arrays := arrays w @
              [array_sort (sortBy (fieldName ev)
                 (if detail_sortDirection ev = ''asc'' then - 1 else 1) (rows w)) (arrays w ! a)],
           parent := (parent w)(dataFieldName self \<mapsto> length (arrays w))\<rparr>)"
  using assms by (simp add: sortData_def spread_def sort_in_place_def nth_append)

lemma sortData_published:
  assumes "published self w = Some xs"
  shows "\<exists>self' w'. sortData ev self w = Inr (self', w') \<and>
     published self' w' = Some (array_sort (sortBy (fieldName ev)
         (if detail_sortDirection ev = ''asc'' then - 1 else 1) (rows w)) xs) \<and>
     rows w' = rows w \<and> dataFieldName self' = dataFieldName self"
proof -
  from assms obtain a where a: "parent w (dataFieldName self) = Some a" "a < length (arrays w)"
    "xs = arrays w ! a"
    using published_SomeD by blast
  show ?thesis
    unfolding sortData_Inr [OF a(1,2)] using a(3) by (simp add: published_def)
qed

lemma demo_published: "published (DatatableSorter_new ''data'') demo_world = Some [1, 2, 3, 4]"
  by (simp add: published_def DatatableSorter_new_def demo_world_def)

text \<open>
  Claim C10. Whenever the owner's slot holds a sequence, \<open>sortData\<close> returns, and the
  sequence it publishes to the slot is a permutation of the input sequence: the same
  record references with the same multiplicities, and the same length. This holds for
  every field name, also one that some or all records lack, and for every direction
  value.
\<close>

theorem sortData_permutation:
  assumes "published self w = Some xs"
  shows "\<exists>self' w' ys. sortData ev self w = Inr (self', w') \<and> published self' w' = Some ys \<and>
           mset ys = mset xs \<and> length ys = length xs"
  using sortData_published [OF assms, of ev] by (auto simp: mset_array_sort length_array_sort)

theorem sortData_permutation_witness:
  "published (DatatableSorter_new ''data'') demo_world = Some [1, 2, 3, 4] \<and>
   (\<exists>self' w' ys.
      sortData \<lparr>fieldName = ''email'', detail_sortDirection = ''up''\<rparr>
        (DatatableSorter_new ''data'') demo_world = Inr (self', w') \<and>
      published self' w' = Some ys \<and> mset ys = mset [1, 2, 3, 4] \<and>
      length ys = length [1, 2, 3, 4 :: nat])"
  using sortData_permutation [OF demo_published] demo_published by simp



lemma successively_insert_by:
  "\<forall>x y. 0 < cmp x y \<longrightarrow> cmp y x \<le> 0 \<Longrightarrow> successively (\<lambda>x y. cmp x y \<le> 0) ys \<Longrightarrow>
   successively (\<lambda>x y. cmp x y \<le> 0) (insert_by cmp x ys)"
proof (induction ys)
  case Nil
  then show ?case by simp
next
  case (Cons y ys)
  then show ?case by (cases ys) (auto simp: not_less)
qed

lemma successively_array_sort:
  "\<forall>x y. 0 < cmp x y \<longrightarrow> cmp y x \<le> 0 \<Longrightarrow> successively (\<lambda>x y. cmp x y \<le> 0) (array_sort cmp xs)"
  by (induction xs) (auto simp: array_sort_def successively_insert_by)

lemma array_sort_fixed:
  "successively (\<lambda>x y. cmp x y \<le> 0) ys \<Longrightarrow> array_sort cmp ys = ys"
proof (induction ys)
  case Nil
  then show ?case by (simp add: array_sort_def)
next
  case (Cons y ys)
  then have "array_sort cmp ys = ys" by (cases ys) auto
  then have "array_sort cmp (y # ys) = insert_by cmp y ys" by (simp add: array_sort_def)
  with Cons.prems show ?case by (cases ys) auto
qed

lemma array_sort_idem:
  "\<forall>x y. 0 < cmp x y \<longrightarrow> cmp y x \<le> 0 \<Longrightarrow> array_sort cmp (array_sort cmp xs) = array_sort cmp xs"
  by (rule array_sort_fixed) (rule successively_array_sort)


lemma sortBy_swap: "sortBy f r rws b a = - sortBy f r rws a b"
  by (simp add: sortBy_def Let_def algebra_simps)




text \<open>
  Claim C4. A call of \<open>sortData\<close> on a slot that holds the array at address \<open>a\<close>
  mutates no array that existed before the call, in particular not the one at \<open>a\<close>
  (same elements, same order), and no record object. It allocates one array, at an
  address that held none before, and reassigns only the owner's slot, to that address.
\<close>

theorem sortData_frame:
  assumes "parent w (dataFieldName self) = Some a" and "a < length (arrays w)"
  shows "\<exists>self' w'. sortData ev self w = Inr (self', w') \<and>
           take (length (arrays w)) (arrays w') = arrays w \<and>
           arrays w' ! a = arrays w ! a \<and>
           rows w' = rows w \<and>
           length (arrays w') = Suc (length (arrays w)) \<and>
           parent w' = (parent w)(dataFieldName self \<mapsto> length (arrays w))"
  unfolding sortData_Inr [OF assms] using assms(2) by (simp add: nth_append)

theorem sortData_frame_witness:
  "parent demo_world (dataFieldName (DatatableSorter_new ''data'')) = Some 0 \<and>
   0 < length (arrays demo_world) \<and>
   (\<exists>self' w'. sortData asc_age (DatatableSorter_new ''data'') demo_world = Inr (self', w') \<and>
           take (length (arrays demo_world)) (arrays w') = arrays demo_world \<and>
           arrays w' ! 0 = arrays demo_world ! 0 \<and>
           rows w' = rows demo_world \<and>
           length (arrays w') = Suc (length (arrays demo_world)) \<and>
           parent w' = (parent demo_world)(dataFieldName (DatatableSorter_new ''data'') \<mapsto>
                          length (arrays demo_world)))"
proof -
  have p: "parent demo_world (dataFieldName (DatatableSorter_new ''data'')) = Some 0"
    by (simp add: demo_world_def DatatableSorter_new_def)
  have l: "0 < length (arrays demo_world)"
    by (simp add: demo_world_def)
  show ?thesis using sortData_frame [OF p l, of asc_age] p l by simp
qed

text \<open>
  Claim C5. After a call of \<open>sortData\<close> with the descriptor \<open>{fieldName, sortDirection}\<close>
  on a slot that holds a sequence, the sorter has \<open>sortedBy = fieldName\<close> and
  \<open>sortDirection\<close> as requested. A new sorter, before any sort, has the defaults:
  \<open>sortDirection = 'asc'\<close>, \<open>sortedBy\<close> none (and \<open>defaultSortDirection = 'asc'\<close>).
\<close>

theorem sortData_state:
  "(published self w = Some xs \<longrightarrow>
      (\<exists>self' w'. sortData ev self w = Inr (self', w') \<and>
         sortedBy self' = Some (fieldName ev) \<and>
         sortDirection self' = detail_sortDirection ev)) \<and>
   sortDirection (DatatableSorter_new name) = ''asc'' \<and>
   sortedBy (DatatableSorter_new name) = None \<and>
   defaultSortDirection (DatatableSorter_new name) = ''asc''"
proof -
  have "\<exists>self' w'. sortData ev self w = Inr (self', w') \<and>
         sortedBy self' = Some (fieldName ev) \<and>
         sortDirection self' = detail_sortDirection ev" if "published self w = Some xs"
  proof -
    from that obtain a where a: "parent w (dataFieldName self) = Some a" "a < length (arrays w)"
      using published_SomeD by blast
    show ?thesis unfolding sortData_Inr [OF a] by simp
  qed
  then show ?thesis by (simp add: DatatableSorter_new_def)
qed

theorem sortData_state_witness:
  "published (DatatableSorter_new ''data'') demo_world = Some [1, 2, 3, 4] \<and>
   (\<exists>self' w'. sortData asc_age (DatatableSorter_new ''data'') demo_world = Inr (self', w') \<and>
      sortedBy self' = Some ''age'' \<and> sortDirection self' = ''asc'') \<and>
   sortDirection (DatatableSorter_new ''data'') = ''asc'' \<and>
   sortedBy (DatatableSorter_new ''data'') = None"
  using sortData_state [of "DatatableSorter_new ''data''" demo_world "[1, 2, 3, 4]" asc_age "''data''"]
    demo_published
  by (simp add: asc_age_def)

text \<open>
  Claim C6. Whenever the owner's slot holds a sequence, two calls of \<open>sortData\<close> in
  succession with the same descriptor both return, and the slot holds after the second
  call a sequence equal, element for element and in order, to the one it holds after the
  first.
\<close>

theorem sortData_idempotent:
  assumes "published self w = Some xs"
  shows "\<exists>self1 w1 self2 w2 ys.
           sortData ev self w = Inr (self1, w1) \<and> sortData ev self1 w1 = Inr (self2, w2) \<and>
           published self1 w1 = Some ys \<and> published self2 w2 = Some ys"
proof -
  let ?cmp = "sortBy (fieldName ev) (if detail_sortDirection ev = ''asc'' then - 1 else 1) (rows w)"
  from sortData_published [OF assms, of ev] obtain self1 w1 where
    s1: "sortData ev self w = Inr (self1, w1)" "published self1 w1 = Some (array_sort ?cmp xs)"
       "rows w1 = rows w"
    by blast
  from sortData_published [OF s1(2), of ev] s1(3) obtain self2 w2 where
    s2: "sortData ev self1 w1 = Inr (self2, w2)"
       "published self2 w2 = Some (array_sort ?cmp (array_sort ?cmp xs))"
    by auto
  have "\<forall>x y. 0 < ?cmp x y \<longrightarrow> ?cmp y x \<le> 0"
  proof (intro allI impI)
    fix x y
    assume "0 < ?cmp x y"
    then show "?cmp y x \<le> 0"
      using sortBy_swap [of "fieldName ev" _ "rows w" y x] by simp
  qed
  then have "array_sort ?cmp (array_sort ?cmp xs) = array_sort ?cmp xs"
    by (rule array_sort_idem)
  with s1 s2 show ?thesis by simp
qed

theorem sortData_idempotent_witness:
  "published (DatatableSorter_new ''data'') demo_world = Some [1, 2, 3, 4] \<and>
   (\<exists>self1 w1 self2 w2 ys.
      sortData desc_age (DatatableSorter_new ''data'') demo_world = Inr (self1, w1) \<and>
      sortData desc_age self1 w1 = Inr (self2, w2) \<and>
      published self1 w1 = Some ys \<and> published self2 w2 = Some ys)"
  using sortData_idempotent [OF demo_published] demo_published by simp

lemma ages_published: "published (DatatableSorter_new ''data'') ages_world = Some [1, 2, 3]"
  by (simp add: published_def DatatableSorter_new_def ages_world_def)

lemma sortData_demo_asc:
  "\<exists>self' w'. sortData asc_age (DatatableSorter_new ''data'') demo_world = Inr (self', w') \<and>
      published self' w' = Some [3, 1, 4, 2]"
proof -
  have "array_sort (sortBy (fieldName asc_age)
          (if detail_sortDirection asc_age = ''asc'' then - 1 else 1) (rows demo_world)) [1, 2, 3, 4] = [3, 1, 4, 2]"
    by (simp add: asc_age_def demo_world_def demo_rows_def array_sort_def sortBy_def js_gt_def)
  with sortData_published [OF demo_published, of asc_age] show ?thesis by auto
qed

lemma sortData_ages_asc:
  "\<exists>self' w'. sortData asc_age (DatatableSorter_new ''data'') ages_world = Inr (self', w') \<and>
      published self' w' = Some [3, 1, 2]"
proof -
  have "array_sort (sortBy (fieldName asc_age)
          (if detail_sortDirection asc_age = ''asc'' then - 1 else 1) (rows ages_world)) [1, 2, 3] = [3, 1, 2]"
    by (simp add: asc_age_def ages_world_def ages_rows_def array_sort_def sortBy_def js_gt_def)
  with sortData_published [OF ages_published, of asc_age] show ?thesis by auto
qed

lemma sortData_ages_desc:
  "\<exists>self' w'. sortData desc_age (DatatableSorter_new ''data'') ages_world = Inr (self', w') \<and>
      published self' w' = Some [2, 1, 3]"
proof -
  have "array_sort (sortBy (fieldName desc_age)
          (if detail_sortDirection desc_age = ''asc'' then - 1 else 1) (rows ages_world)) [1, 2, 3] = [2, 1, 3]"
    by (simp add: desc_age_def ages_world_def ages_rows_def array_sort_def sortBy_def js_gt_def)
  with sortData_published [OF ages_published, of desc_age] show ?thesis by auto
qed

lemma onHandleSort_demo_asc:
  "\<exists>app' w'. onHandleSort asc_age (DemoApp_new 0) demo_world = Inr (app', w') \<and>
      DemoApp_published app' w' = Some [2, 4, 1, 3]"
  by (simp add: onHandleSort_def spread_def sort_in_place_def DemoApp_new_def DemoApp_published_def
      asc_age_def demo_world_def demo_rows_def array_sort_def DemoApp_sortBy_def js_gt_def)

text \<open>
  Claim C2, evaluated on the code. On the records with the ages 40, 35 and 50 the
  direction \<open>'asc'\<close> publishes the ages 50, 40, 35 and the direction \<open>'desc'\<close> the
  ages 35, 40, 50; on the four demo records the event \<open>{fieldName: 'age',
  sortDirection: 'asc'}\<close> publishes the ids 3, 1, 4, 2. The demo component, on the same
  records and event, publishes the ids 2, 4, 1, 3.
\<close>

theorem sortData_examples:
  "(\<exists>self' w'. sortData asc_age (DatatableSorter_new ''data'') ages_world = Inr (self', w') \<and>
      published self' w' = Some [3, 1, 2]) \<and>
   (\<exists>self' w'. sortData desc_age (DatatableSorter_new ''data'') ages_world = Inr (self', w') \<and>
      published self' w' = Some [2, 1, 3]) \<and>
   map (\<lambda>r. rows ages_world r ''age'') [3, 1, 2] = [Some 50, Some 40, Some 35] \<and>
   map (\<lambda>r. rows ages_world r ''age'') [2, 1, 3] = [Some 35, Some 40, Some 50] \<and>
   (\<exists>self' w'. sortData asc_age (DatatableSorter_new ''data'') demo_world = Inr (self', w') \<and>
      published self' w' = Some [3, 1, 4, 2]) \<and>
   map (\<lambda>r. rows demo_world r ''id'') [3, 1, 4, 2] = [Some 3, Some 1, Some 4, Some 2] \<and>
   (\<exists>app' w'. onHandleSort asc_age (DemoApp_new 0) demo_world = Inr (app', w') \<and>
      DemoApp_published app' w' = Some [2, 4, 1, 3])"
  using sortData_ages_asc sortData_ages_desc sortData_demo_asc onHandleSort_demo_asc
  by (simp add: ages_world_def ages_rows_def demo_world_def demo_rows_def)

















section \<open>Properties of protectThis\<close>

lemma get_own: "map_of (props (h a)) n = Some v \<Longrightarrow> get h a n = v"
  by (subst get.simps) simp

lemma get_inherited:
  "map_of (props (h a)) n = None \<Longrightarrow> proto (h a) = Some p \<Longrightarrow> p < a \<Longrightarrow> get h a n = get h p n"
  by (subst get.simps) simp

text \<open>A property read depends on the object and on objects at smaller addresses only.\<close>

lemma get_agree: "(\<And>b. b \<le> a \<Longrightarrow> h' b = h b) \<Longrightarrow> get h' a n = get h a n"
proof (induction a rule: less_induct)
  case (less a)
  have same: "h' a = h a" using less.prems by simp
  have rec: "get h' p n = get h p n" if "p < a" for p
    using less.IH [OF that] less.prems that by simp
  show ?case
    by (subst get.simps, subst (2) get.simps)
       (auto simp: same rec split: option.splits)
qed

lemma protect_method_other: "a \<noteq> object \<Longrightarrow> protect_method object m h a = h a"
  by (simp add: protect_method_def set_prop_def Let_def)

lemma protect_method_proto: "proto (protect_method object m h object) = proto (h object)"
  by (simp add: protect_method_def set_prop_def Let_def)

lemma protect_method_props:
  "map_of (props (protect_method object m h object)) =
   (map_of (props (h object)))(m \<mapsto> Protected (get h object m) object)"
  by (simp add: protect_method_def set_prop_def Let_def update_conv')

lemma get_protect_method:
  "get (protect_method object m h) object n =
   (if n = m then Protected (get h object m) object else get h object n)"
proof (cases "n = m")
  case True
  then show ?thesis by (simp add: get_own protect_method_props)
next
  case False
  have below: "get (protect_method object m h) p n = get h p n" if "p < object" for p
    using that by (intro get_agree protect_method_other) simp
  show ?thesis
    using False
    by (subst get.simps, subst (2) get.simps)
       (auto simp: protect_method_props protect_method_proto below split: option.splits)
qed

lemma fold_protect_other: "a \<noteq> object \<Longrightarrow> fold (protect_method object) ns h a = h a"
  by (induction ns arbitrary: h) (simp_all add: protect_method_other)

lemma fold_protect_proto: "proto (fold (protect_method object) ns h object) = proto (h object)"
  by (induction ns arbitrary: h) (simp_all add: protect_method_proto)

lemma fold_protect_untouched:
  "n \<notin> set ns \<Longrightarrow> get (fold (protect_method object) ns h) object n = get h object n"
  by (induction ns arbitrary: h) (simp_all add: get_protect_method)

lemma fold_protect_wrapped:
  "n \<in> set ns \<Longrightarrow>
   typeof_function (get (fold (protect_method object) ns h) object n) \<and>
   call B (get (fold (protect_method object) ns h) object n) c args st =
   call B (get h object n) (Some object) args st"
proof (induction ns arbitrary: h)
  case Nil
  then show ?case by simp
next
  case (Cons m ms)
  show ?case
  proof (cases "n \<in> set ms")
    case True
    from Cons.IH [OF True, of "protect_method object m h"] show ?thesis
      by (simp add: get_protect_method)
  next
    case False
    with Cons.prems have "n = m" by simp
    with False show ?thesis
      by (simp add: fold_protect_untouched get_protect_method)
  qed
qed

lemma protectThis_Inr:
  "proto (h object) = Some p \<Longrightarrow>
   protectThis object h =
   Inr (fold (protect_method object)
          (filter (\<lambda>m. typeof_function (get h object m)) (getOwnPropertyNames (h p))) h)"
  by (simp add: protectThis_def)

text \<open>
  Claim C1, as amended. Let \<open>protectThis\<close> be applied to an instance \<open>object\<close> with a
  prototype \<open>p\<close>. For every name that is an own property of \<open>p\<close> and whose value
  on the instance is a function, the method extracted from the instance afterwards and
  invoked with no calling context and arbitrary arguments behaves, and returns, as when
  it is invoked as \<open>object.method(args)\<close>, and as the method the instance had before,
  run with the instance as \<open>this\<close>.
\<close>

theorem protectThis_own_methods:
  assumes "proto (h object) = Some p" and "n \<in> set (getOwnPropertyNames (h p))"
    and "typeof_function (get h object n)"
  shows "\<exists>h'. protectThis object h = Inr h' \<and> typeof_function (get h' object n) \<and>
           call B (get h' object n) c args st = call B (get h' object n) (Some object) args st \<and>
           call B (get h' object n) c args st = call B (get h object n) (Some object) args st"
proof -
  let ?ns = "filter (\<lambda>m. typeof_function (get h object m)) (getOwnPropertyNames (h p))"
  have n: "n \<in> set ?ns" using assms(2,3) by simp
  show ?thesis
    unfolding protectThis_Inr [of h object p, OF assms(1)]
    using fold_protect_wrapped [OF n, of object h B c args st]
      fold_protect_wrapped [OF n, of object h B "Some object" args st]
    by simp
qed

lemma sorter_heap_facts:
  "proto (sorter_heap 2) = Some 1"
  "''sortData'' \<in> set (getOwnPropertyNames (sorter_heap 1))"
  "typeof_function (get sorter_heap 2 ''sortData'')"
  "get sorter_heap 2 ''sortData'' = Defined ''sortData''"
  by (simp_all add: sorter_heap_def getOwnPropertyNames_def get.simps)

theorem protectThis_own_methods_witness:
  "proto (sorter_heap 2) = Some 1 \<and>
   ''sortData'' \<in> set (getOwnPropertyNames (sorter_heap 1)) \<and>
   typeof_function (get sorter_heap 2 ''sortData'') \<and>
   (\<exists>h'. protectThis 2 sorter_heap = Inr h' \<and> typeof_function (get h' 2 ''sortData'') \<and>
      call observe (get h' 2 ''sortData'') None [''event''] () =
        call observe (get h' 2 ''sortData'') (Some 2) [''event''] () \<and>
      call observe (get h' 2 ''sortData'') None [''event''] () =
        call observe (get sorter_heap 2 ''sortData'') (Some 2) [''event''] ())"
  using protectThis_own_methods [of sorter_heap 2 1 "''sortData''", OF sorter_heap_facts(1-3), of observe None "[''event'']" "()"]
    sorter_heap_facts(1-3)
  by (intro conjI)

lemma sorter_heap_protectThis: "protectThis 2 sorter_heap = Inr sorter_heap_protected"
  by (simp add: protectThis_def protect_method_def set_prop_def getOwnPropertyNames_def
      sorter_heap_def sorter_heap_protected_def get.simps Let_def)

lemma sorter_heap_get_toString:
  "get sorter_heap_protected 2 ''toString'' = Defined ''Object.prototype.toString''"
  by (simp add: sorter_heap_def sorter_heap_protected_def get.simps)

text \<open>
  Claim C1 as stated, for every method name on the instance, fails for a method the
  instance inherits from further up the prototype chain: \<open>protectThis\<close> wraps the own
  properties of the direct prototype only. On the \<open>DatatableSorter\<close> instance,
  \<open>toString\<close> is still the function of \<open>Object.prototype\<close> after the call, and
  invoked with no context it runs with no \<open>this\<close>, unlike \<open>instance.toString()\<close>.
\<close>

theorem protectThis_inherited_counterexample:
  "protectThis 2 sorter_heap = Inr sorter_heap_protected \<and>
   typeof_function (get sorter_heap_protected 2 ''toString'') \<and>
   call observe (get sorter_heap_protected 2 ''toString'') None ([] :: string list) () \<noteq>
   call observe (get sorter_heap_protected 2 ''toString'') (Some 2) ([] :: string list) ()"
  by (simp add: sorter_heap_protectThis sorter_heap_get_toString observe_def)


text \<open>
  Claim C8. \<open>protectThis\<close> on an instance with a prototype \<open>p\<close> returns and changes
  the own property table of the instance only: every other object, in particular
  \<open>p\<close>, is unchanged, the instance keeps its prototype, and every property read
  from another instance of the same class gives what it gave before.
\<close>

theorem protectThis_frame:
  assumes "proto (h object) = Some p" and "p < object"
  shows "\<exists>h'. protectThis object h = Inr h' \<and> h' p = h p \<and>
           (\<forall>a. a \<noteq> object \<longrightarrow> h' a = h a) \<and>
           proto (h' object) = Some p \<and>
           (\<forall>other n. other \<noteq> object \<and> proto (h other) = Some p \<longrightarrow>
              get h' other n = get h other n)"
proof -
  let ?ns = "filter (\<lambda>m. typeof_function (get h object m)) (getOwnPropertyNames (h p))"
  let ?h' = "fold (protect_method object) ?ns h"
  have other: "?h' a = h a" if "a \<noteq> object" for a
    using that by (rule fold_protect_other)
  have below: "get ?h' a n = get h a n" if "a < object" for a n
    using that by (intro get_agree other) simp
  have inst: "get ?h' other n = get h other n"
    if "other \<noteq> object" "proto (h other) = Some p" for other n
    using that assms(2) other [of other] below [of p n]
    by (subst get.simps, subst (2) get.simps) (simp split: option.splits)
  have "protectThis object h = Inr ?h'"
    using assms(1) by (rule protectThis_Inr)
  moreover have "?h' p = h p" using assms(2) other by simp
  moreover have "proto (?h' object) = Some p"
    using assms(1) by (simp add: fold_protect_proto)
  ultimately show ?thesis using other inst by blast
qed

theorem protectThis_frame_witness:
  "proto (sorter_heap 2) = Some 1 \<and> (1 :: nat) < 2 \<and>
   (\<exists>h'. protectThis 2 sorter_heap = Inr h' \<and> h' 1 = sorter_heap 1 \<and>
      (\<forall>a. a \<noteq> 2 \<longrightarrow> h' a = sorter_heap a) \<and>
      proto (h' 2) = Some 1 \<and>
      (\<forall>other n. other \<noteq> 2 \<and> proto (sorter_heap other) = Some 1 \<longrightarrow>
         get h' other n = get sorter_heap other n))"
proof -
  have lt: "(1 :: nat) < 2" by simp
  from protectThis_frame [of sorter_heap 2 1, OF sorter_heap_facts(1) lt] sorter_heap_facts(1) lt
  show ?thesis by (intro conjI)
qed

text \<open>
  Claim C9. Two applications of \<open>protectThis\<close> to an instance both return; for every
  name that is an own property of the prototype and a function on the instance, the
  method after the second application, invoked with any or no context, runs the original
  method with the instance as \<open>this\<close> on the same arguments, and gives what the method
  gives after one application. When no own property of the prototype is a function on
  the instance, \<open>protectThis\<close> returns the heap unchanged.
\<close>

theorem protectThis_twice:
  "(proto (h object) = Some p \<and> p < object \<and> n \<in> set (getOwnPropertyNames (h p)) \<and>
    typeof_function (get h object n) \<longrightarrow>
      (\<exists>h1 h2. protectThis object h = Inr h1 \<and> protectThis object h1 = Inr h2 \<and>
         call B (get h2 object n) c args st = call B (get h object n) (Some object) args st \<and>
         call B (get h2 object n) c args st = call B (get h1 object n) c args st \<and>
         (map_of (props (h object)) n = None \<longrightarrow>
            map_of (props (h p)) n = Some (get h object n)))) \<and>
   (proto (h object) = Some p \<and>
    (\<forall>m \<in> set (getOwnPropertyNames (h p)). \<not> typeof_function (get h object m)) \<longrightarrow>
      protectThis object h = Inr h)"
proof (intro conjI impI)
  assume a: "proto (h object) = Some p \<and> p < object \<and> n \<in> set (getOwnPropertyNames (h p)) \<and>
    typeof_function (get h object n)"
  then have pr: "proto (h object) = Some p" and lt: "p < object"
    and n: "n \<in> set (getOwnPropertyNames (h p))" and f: "typeof_function (get h object n)"
    by simp_all
  let ?ns = "filter (\<lambda>m. typeof_function (get h object m)) (getOwnPropertyNames (h p))"
  let ?h1 = "fold (protect_method object) ?ns h"
  let ?ns1 = "filter (\<lambda>m. typeof_function (get ?h1 object m)) (getOwnPropertyNames (?h1 p))"
  let ?h2 = "fold (protect_method object) ?ns1 ?h1"
  have n0: "n \<in> set ?ns" using n f by simp
  have first: "protectThis object h = Inr ?h1" using pr by (rule protectThis_Inr)
  have pr1: "proto (?h1 object) = Some p" using pr by (simp add: fold_protect_proto)
  have p1: "?h1 p = h p" using lt by (simp add: fold_protect_other)
  have w1: "typeof_function (get ?h1 object n)"
    and c1: "call B (get ?h1 object n) c' args st = call B (get h object n) (Some object) args st"
    for c'
    using fold_protect_wrapped [OF n0, of object h B c' args st] by simp_all
  have n1: "n \<in> set ?ns1" using n w1 p1 by simp
  have second: "protectThis object ?h1 = Inr ?h2" using pr1 by (rule protectThis_Inr)
  have c2: "call B (get ?h2 object n) c args st = call B (get ?h1 object n) (Some object) args st"
    using fold_protect_wrapped [OF n1, of object ?h1 B c args st] by simp
  have own: "map_of (props (h p)) n = Some (get h object n)"
    if none: "map_of (props (h object)) n = None"
  proof -
    have "map_of (props (h p)) n \<noteq> None"
      using n by (simp add: getOwnPropertyNames_def map_of_eq_None_iff)
    then obtain v where v: "map_of (props (h p)) n = Some v" by blast
    have "get h object n = get h p n" using none pr lt by (rule get_inherited)
    also have "\<dots> = v" using v by (rule get_own)
    finally show ?thesis using v by simp
  qed
  show "\<exists>h1 h2. protectThis object h = Inr h1 \<and> protectThis object h1 = Inr h2 \<and>
         call B (get h2 object n) c args st = call B (get h object n) (Some object) args st \<and>
         call B (get h2 object n) c args st = call B (get h1 object n) c args st \<and>
         (map_of (props (h object)) n = None \<longrightarrow>
            map_of (props (h p)) n = Some (get h object n))"
  proof (intro exI conjI impI)
    show "protectThis object h = Inr ?h1" by (fact first)
    show "protectThis object ?h1 = Inr ?h2" by (fact second)
    show "call B (get ?h2 object n) c args st = call B (get h object n) (Some object) args st"
      using c2 c1 [of "Some object"] by simp
    show "call B (get ?h2 object n) c args st = call B (get ?h1 object n) c args st"
      using c2 c1 [of "Some object"] c1 [of c] by simp
    show "map_of (props (h p)) n = Some (get h object n)"
      if "map_of (props (h object)) n = None"
      using that by (rule own)
  qed
next
  assume a: "proto (h object) = Some p \<and>
    (\<forall>m \<in> set (getOwnPropertyNames (h p)). \<not> typeof_function (get h object m))"
  then have "filter (\<lambda>m. typeof_function (get h object m)) (getOwnPropertyNames (h p)) = []"
    by (simp add: filter_empty_conv)
  with a show "protectThis object h = Inr h"
    by (simp add: protectThis_def)
qed

lemma plain_heap_facts:
  "proto (plain_heap 1) = Some 0"
  "list_all (\<lambda>m. \<not> typeof_function (get plain_heap 1 m)) (getOwnPropertyNames (plain_heap 0))"
  by (simp_all add: plain_heap_def getOwnPropertyNames_def get.simps)

theorem protectThis_twice_witness:
  "proto (sorter_heap 2) = Some 1 \<and> (1 :: nat) < 2 \<and>
   ''sortData'' \<in> set (getOwnPropertyNames (sorter_heap 1)) \<and>
   typeof_function (get sorter_heap 2 ''sortData'') \<and>
   (\<exists>h1 h2. protectThis 2 sorter_heap = Inr h1 \<and> protectThis 2 h1 = Inr h2 \<and>
      call observe (get h2 2 ''sortData'') None [''event''] () =
        Inr (''sortData'', Some 2, [''event'']) \<and>
      call observe (get h2 2 ''sortData'') None [''event''] () =
        call observe (get h1 2 ''sortData'') None [''event''] ()) \<and>
   proto (plain_heap 1) = Some 0 \<and>
   list_all (\<lambda>m. \<not> typeof_function (get plain_heap 1 m)) (getOwnPropertyNames (plain_heap 0)) \<and>
   protectThis 1 plain_heap = Inr plain_heap"
proof -
  have lt: "(1 :: nat) < 2" by simp
  have "\<exists>h1 h2. protectThis 2 sorter_heap = Inr h1 \<and> protectThis 2 h1 = Inr h2 \<and>
      call observe (get h2 2 ''sortData'') None [''event''] () =
        call observe (get sorter_heap 2 ''sortData'') (Some 2) [''event''] () \<and>
      call observe (get h2 2 ''sortData'') None [''event''] () =
        call observe (get h1 2 ''sortData'') None [''event''] ()"
    using protectThis_twice [of sorter_heap 2 1 "''sortData''" observe None "[''event'']" "()",
        THEN conjunct1] sorter_heap_facts(1-3) lt
    by blast
  then have sorter: "\<exists>h1 h2. protectThis 2 sorter_heap = Inr h1 \<and> protectThis 2 h1 = Inr h2 \<and>
      call observe (get h2 2 ''sortData'') None [''event''] () =
        Inr (''sortData'', Some 2, [''event'']) \<and>
      call observe (get h2 2 ''sortData'') None [''event''] () =
        call observe (get h1 2 ''sortData'') None [''event''] ()"
    by (simp add: sorter_heap_facts(4) observe_def)
  have "\<forall>m \<in> set (getOwnPropertyNames (plain_heap 0)). \<not> typeof_function (get plain_heap 1 m)"
    using plain_heap_facts(2) by (simp only: list_all_iff)
  then have plain: "protectThis 1 plain_heap = Inr plain_heap"
    using protectThis_twice [of plain_heap 1 0, THEN conjunct2] plain_heap_facts(1) by blast
  from sorter plain sorter_heap_facts(1-3) lt plain_heap_facts
  show ?thesis by (intro conjI)
qed

end
